theory Spec2Isabelle
  imports Main
begin

section \<open>Values shared by the components\<close>

text \<open>
  A value caught by a JavaScript \<open>catch\<close> clause: either an \<open>Error\<close> instance
  carrying a message, or any other thrown value (for which \<open>error instanceof Error\<close>
  is false).
\<close>

datatype js_thrown = ErrorObj string | NonError

text \<open>\<open>String.prototype.startsWith\<close> and \<open>String.prototype.includes\<close>.\<close>

fun starts_with :: "string \<Rightarrow> string \<Rightarrow> bool" where
  "starts_with s [] = True"
| "starts_with [] (p # ps) = False"
| "starts_with (c # cs) (p # ps) = (c = p \<and> starts_with cs ps)"

fun includes_str :: "string \<Rightarrow> string \<Rightarrow> bool" where
  "includes_str [] p = (p = [])"
| "includes_str (c # cs) p = (starts_with (c # cs) p \<or> includes_str cs p)"

text \<open>
  The identity object of \<open>useUser()\<close>, with the fields the application reads.
  \<open>firstName\<close> and \<open>lastName\<close> may be \<open>null\<close>.
\<close>

record clerk_user =
  uid :: string
  firstName :: "string option"
  lastName :: "string option"
  imageUrl :: string

section \<open>Role Resolver: \<open>src/hooks/useUserRole.ts\<close>\<close>

text \<open>
  A directory record of the \<open>users\<close> table, and the three values \<open>useQuery\<close> can
  hand back: \<open>undefined\<close> while the query is pending, \<open>null\<close> when no record
  matches, or the record.
\<close>

record user_doc =
  doc_id :: nat
  name :: string
  email :: string
  clerkId :: string
  role :: string
  image :: "string option"
  createdAt :: int

datatype 'a query_result = Undefined | Null | Doc 'a

record role_flags =
  isLoading :: bool
  isInterviewer :: bool
  isCandidate :: bool

text \<open>\<open>user?.id || ""\<close>: the lookup key, the empty string when there is no identity.\<close>

definition lookup_key :: "clerk_user option \<Rightarrow> string" where
  "lookup_key user =
     (case user of
        None \<Rightarrow> ''''
      | Some u \<Rightarrow> (if uid u = '''' then '''' else uid u))"

text \<open>
  \<open>userData?.role === r\<close>: false when \<open>userData\<close> is \<open>undefined\<close> or \<open>null\<close>.
\<close>

definition role_is :: "user_doc query_result \<Rightarrow> string \<Rightarrow> bool" where
  "role_is userData r = (case userData of Doc d \<Rightarrow> role d = r | _ \<Rightarrow> False)"

text \<open>
  The hook. \<open>useQuery\<close> is the reactive query \<open>api.users.getUserByClerkId\<close>, given as
  the function from its \<open>clerkId\<close> argument to what it currently returns.
\<close>

definition useUSerRole ::
  "clerk_user option \<Rightarrow> (string \<Rightarrow> user_doc query_result) \<Rightarrow> role_flags" where
  "useUSerRole user useQuery =
     (let userData = useQuery (lookup_key user)
      in \<lparr>isLoading = (userData = Undefined),
          isInterviewer = role_is userData ''interviewer'',
          isCandidate = role_is userData ''candidate''\<rparr>)"

section \<open>Meeting Actions: \<open>useMeetingActions\<close>\<close>

text \<open>What the hook and the modal do to the outside, in the order they do it.\<close>

datatype ui_event =
    ToastError string
  | ToastSuccess string
  | ConsoleError js_thrown
  | CallGetOrCreate string string string string
  | RouterPush string
  | SetMeetingURL string
  | OnClose

text \<open>
  \<open>createInstantMeeting\<close>. The arguments are what the environment supplies: whether
  \<open>useStreamVideoClient()\<close> returned a client, the result of \<open>crypto.randomUUID()\<close>,
  the string of \<open>new Date().toISOString()\<close>, and how the promise of
  \<open>call.getOrCreate\<close> settles. \<open>CallGetOrCreate type id starts_at description\<close>
  records the request; \<open>call.id\<close> is the id the call was made with.

  An \<open>async\<close> function runs up to its first \<open>await\<close> when it is called and the rest
  when the awaited promise has settled: \<open>createInstantMeeting_start\<close> is the first
  part (the guard, the id, the request), \<open>createInstantMeeting_resume\<close> the second
  (navigation and success toast, or the \<open>catch\<close> clause).
\<close>

definition create_failure_message :: "js_thrown \<Rightarrow> string" where
  "create_failure_message error =
     (case error of
        ErrorObj message \<Rightarrow>
          (if includes_str message ''token''
           then ''Connection not ready. Please try again in a moment.''
           else ''Failed to create meeting. Please try again.'')
      | NonError \<Rightarrow> ''Failed to create meeting. Please try again.'')"

definition createInstantMeeting_start ::
  "bool \<Rightarrow> js_thrown + string \<Rightarrow> string \<Rightarrow> ui_event list" where
  "createInstantMeeting_start client uuid now =
     (if \<not> client
      then [ToastError ''Video service not initialized. Please try again in a moment.'']
      else
        (case uuid of
           Inl error \<Rightarrow> [ConsoleError error, ToastError (create_failure_message error)]
         | Inr cid \<Rightarrow> [CallGetOrCreate ''default'' cid now ''Instant Meeting'']))"

definition createInstantMeeting_resume ::
  "bool \<Rightarrow> js_thrown + string \<Rightarrow> js_thrown + unit \<Rightarrow> ui_event list" where
  "createInstantMeeting_resume client uuid created =
     (if \<not> client then []
      else
        (case uuid of
           Inl error \<Rightarrow> []
         | Inr cid \<Rightarrow>
             (case created of
                Inl error \<Rightarrow> [ConsoleError error, ToastError (create_failure_message error)]
              | Inr _ \<Rightarrow> [RouterPush (''/meetings/'' @ cid), ToastSuccess ''Meeting Created''])))"

definition createInstantMeeting ::
  "bool \<Rightarrow> js_thrown + string \<Rightarrow> string \<Rightarrow> js_thrown + unit \<Rightarrow> ui_event list" where
  "createInstantMeeting client uuid now created =
     createInstantMeeting_start client uuid now @
     createInstantMeeting_resume client uuid created"

definition joinMeeting :: "bool \<Rightarrow> string \<Rightarrow> ui_event list" where
  "joinMeeting client callId =
     (if \<not> client
      then [ToastError ''Video service not initialized. Please try again in a moment.'']
      else [RouterPush (''/meetings/'' @ callId)])"

section \<open>Join modal: \<open>src/components/MeetingModal.tsx\<close>\<close>

text \<open>
  \<open>String.prototype.split\<close> with a one-character separator (the empty string splits
  into one empty segment), and \<open>Array.prototype.pop\<close>, which is \<open>undefined\<close> on an
  empty array.
\<close>

fun split_str :: "char \<Rightarrow> string \<Rightarrow> string list" where
  "split_str sep [] = [[]]"
| "split_str sep (c # cs) =
     (if c = sep then [] # split_str sep cs
      else (case split_str sep cs of
              [] \<Rightarrow> [[c]]
            | w # ws \<Rightarrow> (c # w) # ws))"

definition pop :: "'a list \<Rightarrow> 'a option" where
  "pop xs = (if xs = [] then None else Some (last xs))"

text \<open>
  \<open>handleStart\<close>. In the join branch (\<open>isJoinMeeting\<close>) the id is the popped
  segment and \<open>joinMeeting\<close> runs only when it is truthy (defined and not empty). In
  the other branch \<open>createInstantMeeting()\<close> is called and not awaited, so only its
  first part precedes what follows. The input is cleared and the modal closed in
  every case.
\<close>

definition handleStart ::
  "bool \<Rightarrow> bool \<Rightarrow> string \<Rightarrow> js_thrown + string \<Rightarrow> string \<Rightarrow> js_thrown + unit \<Rightarrow>
   ui_event list" where
  "handleStart isJoinMeeting client meetingURL uuid now created =
     (if isJoinMeeting
      then
        (case pop (split_str CHR ''/'' meetingURL) of
           None \<Rightarrow> []
         | Some meetingId \<Rightarrow> (if meetingId = [] then [] else joinMeeting client meetingId))
        @ [SetMeetingURL '''', OnClose]
      else
        createInstantMeeting_start client uuid now
        @ [SetMeetingURL '''', OnClose]
        @ createInstantMeeting_resume client uuid created)"

text \<open>
  The final segment of a link, in the words of the specification: what follows the
  last \<open>/\<close>, or the whole text when it has none.
\<close>

definition final_segment :: "string \<Rightarrow> string" where
  "final_segment url = rev (takeWhile (\<lambda>c. c \<noteq> CHR ''/'') (rev url))"

section \<open>Directory Sync: \<open>syncUser\<close> of the Convex and Clerk guide\<close>

record sync_args =
  a_name :: string
  a_email :: string
  a_clerkId :: string
  a_image :: "string option"

text \<open>
  The \<open>users\<close> table: its documents in creation order, which is the order of the
  index \<open>by_clerk_id\<close> among documents of one \<open>clerkId\<close>, and the id the next
  inserted document receives.
\<close>

record users_table =
  users :: "user_doc list"
  next_id :: nat

text \<open>\<open>ctx.db.query("users").withIndex("by_clerk_id", q => q.eq("clerkId", k)).first()\<close>\<close>

definition first_by_clerk_id :: "users_table \<Rightarrow> string \<Rightarrow> user_doc option" where
  "first_by_clerk_id db k = find (\<lambda>d. clerkId d = k) (users db)"

text \<open>
  \<open>ctx.db.patch(id, {name, email, image})\<close>: the three fields are replaced (an
  \<open>undefined\<close> image removes the field), every other field is kept.
\<close>

definition patch :: "users_table \<Rightarrow> nat \<Rightarrow> sync_args \<Rightarrow> users_table" where
  "patch db i args =
     db\<lparr>users :=
          map (\<lambda>d. if doc_id d = i
                    then d\<lparr>name := a_name args, email := a_email args, image := a_image args\<rparr>
                    else d)
              (users db)\<rparr>"

definition insert_user :: "users_table \<Rightarrow> user_doc \<Rightarrow> nat \<times> users_table" where
  "insert_user db d =
     (next_id db,
      db\<lparr>users := users db @ [d\<lparr>doc_id := next_id db\<rparr>], next_id := Suc (next_id db)\<rparr>)"

text \<open>
  The mutation handler; \<open>now\<close> is \<open>Date.now()\<close>. The result is what the handler
  returns (the new id after an insert, nothing after a patch) and the table.
\<close>

definition syncUser :: "users_table \<Rightarrow> sync_args \<Rightarrow> int \<Rightarrow> nat option \<times> users_table" where
  "syncUser db args now =
     (case first_by_clerk_id db (a_clerkId args) of
        Some existingUser \<Rightarrow> (None, patch db (doc_id existingUser) args)
      | None \<Rightarrow>
          (let (i, db') =
                 insert_user db
                   \<lparr>doc_id = 0, name = a_name args, email = a_email args,
                    clerkId = a_clerkId args, role = ''user'', image = a_image args,
                    createdAt = now\<rparr>
           in (Some i, db')))"

text \<open>
  The ids of the table come from its counter: every stored document has an id below
  the next one to be issued.
\<close>

definition ids_issued :: "users_table \<Rightarrow> bool" where
  "ids_issued db = list_all (\<lambda>d. doc_id d < next_id db) (users db)"

section \<open>Call Client Lifecycle: \<open>StreamVideoProvider\<close>\<close>

text \<open>
  The display name handed to the client,
  \<open>`${user.firstName || ''} ${user.lastName || ''}`.trim() || user.id\<close>.
  Characters stand for code units below 256, so the white space \<open>trim\<close> removes is
  tab, line feed, vertical tab, form feed, carriage return, space and no-break space.
\<close>

definition or_empty :: "string option \<Rightarrow> string" where
  "or_empty x = (case x of None \<Rightarrow> '''' | Some s \<Rightarrow> s)"

definition is_space :: "char \<Rightarrow> bool" where
  "is_space c = (c \<in> set [CHR 0x09, CHR 0x0A, CHR 0x0B, CHR 0x0C, CHR 0x0D, CHR 0x20, CHR 0xA0])"

definition trim :: "string \<Rightarrow> string" where
  "trim s = rev (dropWhile is_space (rev (dropWhile is_space s)))"

definition display_name :: "clerk_user \<Rightarrow> string" where
  "display_name user =
     (let n = trim (or_empty (firstName user) @ '' '' @ or_empty (lastName user))
      in if n = [] then uid user else n)"

text \<open>
  A \<open>StreamVideoClient\<close> object. \<open>serial\<close> numbers the constructions, so that two
  clients built from equal arguments are still two objects. The API key is a constant
  of the deployment and is left out.
\<close>

record stream_client =
  serial :: nat
  sc_id :: string
  sc_name :: string
  sc_image :: string
  sc_token :: string

text \<open>
  What one run of the effect does to the outside. Console messages are recorded by
  their first argument.
\<close>

datatype provider_io =
    PConsoleLog string
  | PConsoleError js_thrown
  | PToastError string
  | StreamTokenProvider
  | NewStreamVideoClient stream_client
  | SetStreamVideoClient stream_client
  | DisconnectUser stream_client

text \<open>
  The variables one run of the effect closes over: \<open>mounted\<close>, \<open>client\<close>, and, while
  \<open>initClient\<close> is suspended at \<open>await streamTokenProvider()\<close>, the \<open>user\<close> it will
  continue with (\<open>awaited\<close>).
\<close>

record effect_run =
  mounted :: bool
  client :: "stream_client option"
  awaited :: "clerk_user option"

text \<open>
  The component: its effect runs by number, the state \<open>streamVideoClient\<close>, the
  values of \<open>useUser()\<close> at the last render, and the trace, each entry tagged with
  the run that produced it. Two fields are bookkeeping for the properties and are
  read by no step: \<open>constructed\<close> counts the clients built, and \<open>live\<close> lists the
  clients built on which \<open>disconnectUser\<close> has not been called.
\<close>

record provider =
  runs :: "nat \<rightharpoonup> effect_run"
  n_runs :: nat
  streamVideoClient :: "stream_client option"
  user_now :: "clerk_user option"
  isLoaded_now :: bool
  constructed :: nat
  live :: "stream_client list"
  io :: "(nat \<times> provider_io) list"

definition provider_init :: provider where
  "provider_init =
     \<lparr>runs = Map.empty, n_runs = 0, streamVideoClient = None, user_now = None,
      isLoaded_now = False, constructed = 0, live = [], io = []\<rparr>"

text \<open>
  The effect function, up to the first \<open>await\<close> of \<open>initClient\<close>: a new run with
  \<open>mounted = true\<close> and no client; without a loaded, present identity \<open>initClient\<close>
  returns at once, otherwise it asks for the token and is suspended.
\<close>

definition run_effect :: "clerk_user option \<Rightarrow> bool \<Rightarrow> provider \<Rightarrow> provider" where
  "run_effect user isLoaded s =
     (let i = n_runs s;
          s1 = s\<lparr>n_runs := Suc i, user_now := user, isLoaded_now := isLoaded\<rparr>
      in if \<not> isLoaded \<or> user = None
         then s1\<lparr>runs := (runs s)(i \<mapsto> \<lparr>mounted = True, client = None, awaited = None\<rparr>),
                 io := io s @ [(i, PConsoleLog ''StreamProvider: Waiting for user to load...'')]\<rparr>
         else s1\<lparr>runs := (runs s)(i \<mapsto> \<lparr>mounted = True, client = None, awaited = user\<rparr>),
                 io := io s @ [(i, PConsoleLog ''StreamProvider: Getting token for user:''),
                               (i, StreamTokenProvider)]\<rparr>)"

text \<open>The \<open>catch\<close> clause of \<open>initClient\<close>, for run \<open>i\<close> with variables \<open>r\<close>.\<close>

definition initClient_catch :: "nat \<Rightarrow> effect_run \<Rightarrow> js_thrown \<Rightarrow> (nat \<times> provider_io) list" where
  "initClient_catch i r error =
     (i, PConsoleError error) #
     (if mounted r then [(i, PToastError ''Failed to connect to video service'')] else [])"

text \<open>
  The rest of \<open>initClient\<close> of run \<open>i\<close>, when the token promise has settled with
  \<open>token\<close> (\<open>Inl\<close>: rejected). \<open>ctor\<close> is what \<open>new StreamVideoClient\<close> does if it is
  reached: \<open>None\<close> returns the client, \<open>Some e\<close> throws \<open>e\<close>. A run that is not
  suspended has no promise to settle, and nothing happens.
\<close>

definition initClient_resume ::
  "nat \<Rightarrow> js_thrown + string \<Rightarrow> js_thrown option \<Rightarrow> provider \<Rightarrow> provider" where
  "initClient_resume i token ctor s =
     (case runs s i of
        None \<Rightarrow> s
      | Some r0 \<Rightarrow>
          (case awaited r0 of
             None \<Rightarrow> s
           | Some user \<Rightarrow>
               (let r = r0\<lparr>awaited := None\<rparr>;
                    s1 = s\<lparr>runs := (runs s)(i \<mapsto> r)\<rparr>
                in case token of
                     Inl error \<Rightarrow> s1\<lparr>io := io s @ initClient_catch i r error\<rparr>
                   | Inr tok \<Rightarrow>
                       (if \<not> mounted r
                        then s1\<lparr>io := io s @
                                 [(i, PConsoleLog ''StreamProvider: Token received successfully''),
                                  (i, PConsoleLog ''StreamProvider: Component unmounted, aborting initialization'')]\<rparr>
                        else
                          (case ctor of
                             Some error \<Rightarrow>
                               s1\<lparr>io := io s @
                                    [(i, PConsoleLog ''StreamProvider: Token received successfully''),
                                     (i, PConsoleLog ''StreamProvider: Initializing client with token'')]
                                    @ initClient_catch i r error\<rparr>
                           | None \<Rightarrow>
                               (let c = \<lparr>serial = constructed s, sc_id = uid user,
                                         sc_name = display_name user, sc_image = imageUrl user,
                                         sc_token = tok\<rparr>;
                                    r1 = r\<lparr>client := Some c\<rparr>;
                                    s2 = s\<lparr>runs := (runs s)(i \<mapsto> r1),
                                           constructed := Suc (constructed s),
                                           live := live s @ [c]\<rparr>;
                                    pre = io s @
                                      [(i, PConsoleLog ''StreamProvider: Token received successfully''),
                                       (i, PConsoleLog ''StreamProvider: Initializing client with token''),
                                       (i, NewStreamVideoClient c)]
                                in if mounted r1
                                   then s2\<lparr>streamVideoClient := Some c,
                                           io := pre @
                                             [(i, PConsoleLog ''StreamProvider: Client initialized successfully''),
                                              (i, SetStreamVideoClient c)]\<rparr>
                                   else s2\<lparr>io := pre\<rparr>))))))"

text \<open>
  The cleanup function of run \<open>i\<close>. \<open>hidden\<close> is \<open>document.hidden\<close> when it runs;
  \<open>disc\<close> is how the promise of \<open>disconnectUser()\<close> settles (\<open>Some e\<close>: rejected with
  \<open>e\<close>, which \<open>.catch(console.error)\<close> logs; the log entry is recorded with the call).
\<close>

definition cleanup :: "nat \<Rightarrow> bool \<Rightarrow> js_thrown option \<Rightarrow> provider \<Rightarrow> provider" where
  "cleanup i hidden disc s =
     (case runs s i of
        None \<Rightarrow> s
      | Some r \<Rightarrow>
          (let s1 = s\<lparr>runs := (runs s)(i \<mapsto> r\<lparr>mounted := False\<rparr>)\<rparr>
           in case client r of
                None \<Rightarrow> s1
              | Some c \<Rightarrow>
                  (if \<not> hidden
                   then s1\<lparr>live := removeAll c (live s),
                           io := io s @
                             [(i, PConsoleLog ''StreamProvider: Cleaning up client''),
                              (i, DisconnectUser c)]
                             @ (case disc of None \<Rightarrow> [] | Some e \<Rightarrow> [(i, PConsoleError e)])\<rparr>
                   else s1)))"

text \<open>
  React runs the cleanup of the latest run of the effect, once, before the next run
  and at unmount. A run whose cleanup has run is the one whose \<open>mounted\<close> is false.
\<close>

definition teardown :: "bool \<Rightarrow> js_thrown option \<Rightarrow> provider \<Rightarrow> provider" where
  "teardown hidden disc s =
     (case n_runs s of
        0 \<Rightarrow> s
      | Suc i \<Rightarrow>
          (case runs s i of
             None \<Rightarrow> s
           | Some r \<Rightarrow> (if mounted r then cleanup i hidden disc s else s)))"

text \<open>
  What can happen to the component: a commit with new values of \<open>[user, isLoaded]\<close>
  (the mount is the first one), the unmount, and the settling of the token promise of
  a run.
\<close>

datatype provider_event =
    Render "clerk_user option" bool bool "js_thrown option"
  | Unmount bool "js_thrown option"
  | TokenSettled nat "js_thrown + string" "js_thrown option"

fun provider_step :: "provider_event \<Rightarrow> provider \<Rightarrow> provider" where
  "provider_step (Render user isLoaded hidden disc) s =
     run_effect user isLoaded (teardown hidden disc s)"
| "provider_step (Unmount hidden disc) s = teardown hidden disc s"
| "provider_step (TokenSettled i token ctor) s = initClient_resume i token ctor s"

fun provider_run :: "provider_event list \<Rightarrow> provider \<Rightarrow> provider" where
  "provider_run [] s = s"
| "provider_run (ev # evs) s = provider_run evs (provider_step ev s)"





fun is_settle :: "provider_event \<Rightarrow> bool" where
  "is_settle (TokenSettled i token ctor) = True"
| "is_settle ev = False"

fun is_teardown :: "provider_event \<Rightarrow> bool" where
  "is_teardown (TokenSettled i token ctor) = False"
| "is_teardown ev = True"

fun is_publish :: "provider_io \<Rightarrow> bool" where
  "is_publish (SetStreamVideoClient c) = True"
| "is_publish (NewStreamVideoClient c) = True"
| "is_publish e = False"


text \<open>The entries of a trace that publish a client or build one.\<close>

definition published :: "(nat \<times> provider_io) list \<Rightarrow> (nat \<times> provider_io) list" where
  "published tr = filter (\<lambda>x. is_publish (snd x)) tr"

section \<open>Call Lookup: \<open>src/hooks/useGetcallById.ts\<close> and the meeting page\<close>

text \<open>The object \<open>client.call(type, id)\<close> returns.\<close>

record call_obj =
  call_type :: string
  call_id :: string

text \<open>
  The render of \<open>MeetingPage\<close>, from \<open>isLoaded\<close>, the \<open>call\<close> and \<open>isCallLoading\<close>
  of the hook, and \<open>isSetupComplete\<close>.
\<close>

datatype page_view = LoadingMeeting | MeetingNotFound | MeetingSetup call_obj | MeetingRoom call_obj

definition MeetingPage :: "bool \<Rightarrow> call_obj option \<Rightarrow> bool \<Rightarrow> bool \<Rightarrow> page_view" where
  "MeetingPage isLoaded call isCallLoading isSetupComplete =
     (if \<not> isLoaded \<or> isCallLoading then LoadingMeeting
      else (case call of
              None \<Rightarrow> MeetingNotFound
            | Some c \<Rightarrow> (if \<not> isSetupComplete then MeetingSetup c else MeetingRoom c)))"

datatype lookup_io =
    LConsoleLog string
  | LConsoleError js_thrown
  | LToastError string
  | CallGet call_obj
  | SetCall call_obj
  | SetIsCallLoading bool
  | SetInterval nat
  | ClearInterval

text \<open>
  What one run of the hook's effect closes over: \<open>mounted\<close>, the \<open>client\<close> of that
  render (present or not), the \<open>id\<close>, whether \<open>retryInterval\<close> is set and not yet
  cleared, and how many promises of \<open>call.get()\<close> started by \<open>getCall\<close> have not
  settled.
\<close>

record lookup_run =
  lk_mounted :: bool
  lk_client :: bool
  lk_id :: string
  retryInterval :: bool
  lk_pending :: nat

record lookup =
  lk_runs :: "nat \<rightharpoonup> lookup_run"
  lk_n :: nat
  call :: "call_obj option"
  isCallLoading :: bool
  lk_io :: "(nat \<times> lookup_io) list"

definition lookup_init :: lookup where
  "lookup_init = \<lparr>lk_runs = Map.empty, lk_n = 0, call = None, isCallLoading = True, lk_io = []\<rparr>"

definition lookup_failure_message :: "js_thrown \<Rightarrow> string" where
  "lookup_failure_message error =
     (case error of
        ErrorObj message \<Rightarrow>
          (if includes_str message ''not found''
           then ''Meeting not found or has ended''
           else ''Failed to load meeting'')
      | NonError \<Rightarrow> ''Failed to load meeting'')"

text \<open>\<open>getCall\<close> of run \<open>i\<close>, up to its \<open>await\<close>.\<close>

definition getCall :: "nat \<Rightarrow> lookup \<Rightarrow> lookup" where
  "getCall i s =
     (case lk_runs s i of
        None \<Rightarrow> s
      | Some r \<Rightarrow>
          (if \<not> lk_client r
           then s\<lparr>lk_io := lk_io s @
                   [(i, LConsoleLog ''useGetcallById: No client available, waiting...'')]\<rparr>
           else s\<lparr>lk_runs := (lk_runs s)(i \<mapsto> r\<lparr>lk_pending := Suc (lk_pending r)\<rparr>),
                   lk_io := lk_io s @
                     [(i, LConsoleLog ''useGetcallById: Fetching call with id:''),
                      (i, CallGet \<lparr>call_type = ''default'', call_id = lk_id r\<rparr>)]\<rparr>))"

text \<open>
  The rest of \<open>getCall\<close> of run \<open>i\<close>, when a promise of \<open>call.get()\<close> has settled
  with \<open>result\<close> (\<open>Inl\<close>: rejected). Without a pending promise nothing happens.
\<close>

definition getCall_resume :: "nat \<Rightarrow> js_thrown + unit \<Rightarrow> lookup \<Rightarrow> lookup" where
  "getCall_resume i result s =
     (case lk_runs s i of
        None \<Rightarrow> s
      | Some r \<Rightarrow>
          (case lk_pending r of
             0 \<Rightarrow> s
           | Suc k \<Rightarrow>
               (let s1 = s\<lparr>lk_runs := (lk_runs s)(i \<mapsto> r\<lparr>lk_pending := k\<rparr>)\<rparr>;
                    c = \<lparr>call_type = ''default'', call_id = lk_id r\<rparr>
                in case result of
                     Inr _ \<Rightarrow>
                       (if lk_mounted r
                        then s1\<lparr>call := Some c, isCallLoading := False,
                                lk_io := lk_io s @
                                  [(i, LConsoleLog ''useGetcallById: Call fetched successfully:''),
                                   (i, SetCall c), (i, SetIsCallLoading False)]\<rparr>
                        else s1\<lparr>lk_io := lk_io s @
                                  [(i, LConsoleLog ''useGetcallById: Call fetched successfully:'')]\<rparr>)
                   | Inl error \<Rightarrow>
                       (if lk_mounted r
                        then s1\<lparr>isCallLoading := False,
                                lk_io := lk_io s @
                                  [(i, LConsoleError error), (i, SetIsCallLoading False),
                                   (i, LToastError (lookup_failure_message error))]\<rparr>
                        else s1\<lparr>lk_io := lk_io s @ [(i, LConsoleError error)]\<rparr>))))"

text \<open>
  The effect function: a new run, \<open>getCall()\<close>, then \<open>setInterval(..., 1000)\<close>. The
  interval is entered in the run from the start; nothing reads it before it is set.
\<close>

definition lookup_effect :: "bool \<Rightarrow> string \<Rightarrow> lookup \<Rightarrow> lookup" where
  "lookup_effect has_client cid s =
     (let i = lk_n s;
          s1 = s\<lparr>lk_runs := (lk_runs s)(i \<mapsto>
                      \<lparr>lk_mounted = True, lk_client = has_client, lk_id = cid,
                       retryInterval = True, lk_pending = 0\<rparr>),
                 lk_n := Suc i\<rparr>;
          s2 = getCall i s1
      in s2\<lparr>lk_io := lk_io s2 @ [(i, SetInterval 1000)]\<rparr>)"

text \<open>
  The callback of \<open>retryInterval\<close> of run \<open>i\<close>. A cleared interval does not fire.
\<close>

definition lookup_tick :: "nat \<Rightarrow> lookup \<Rightarrow> lookup" where
  "lookup_tick i s =
     (case lk_runs s i of
        None \<Rightarrow> s
      | Some r \<Rightarrow>
          (if \<not> retryInterval r then s
           else if \<not> lk_client r
           then getCall i
                  (s\<lparr>lk_io := lk_io s @
                       [(i, LConsoleLog ''useGetcallById: Retrying to get client...'')]\<rparr>)
           else s))"

definition lookup_cleanup :: "nat \<Rightarrow> lookup \<Rightarrow> lookup" where
  "lookup_cleanup i s =
     (case lk_runs s i of
        None \<Rightarrow> s
      | Some r \<Rightarrow>
          s\<lparr>lk_runs := (lk_runs s)(i \<mapsto> r\<lparr>lk_mounted := False, retryInterval := False\<rparr>),
            lk_io := lk_io s @ [(i, ClearInterval)]\<rparr>)"

text \<open>As for the provider, React runs the cleanup of the latest run once.\<close>

definition lookup_teardown :: "lookup \<Rightarrow> lookup" where
  "lookup_teardown s =
     (case lk_n s of
        0 \<Rightarrow> s
      | Suc i \<Rightarrow>
          (case lk_runs s i of
             None \<Rightarrow> s
           | Some r \<Rightarrow> (if lk_mounted r then lookup_cleanup i s else s)))"

text \<open>
  What can happen to the hook: a commit with new values of \<open>[client, id]\<close> (the mount
  is the first), the unmount, a tick of the interval of a run, and the settling of a
  promise of \<open>call.get()\<close> of a run.
\<close>

datatype lookup_event =
    LkRender bool string
  | LkUnmount
  | LkTick nat
  | LkGetSettled nat "js_thrown + unit"

fun lookup_step :: "lookup_event \<Rightarrow> lookup \<Rightarrow> lookup" where
  "lookup_step (LkRender has_client cid) s = lookup_effect has_client cid (lookup_teardown s)"
| "lookup_step LkUnmount s = lookup_teardown s"
| "lookup_step (LkTick i) s = lookup_tick i s"
| "lookup_step (LkGetSettled i result) s = getCall_resume i result s"

fun lookup_steps :: "lookup_event list \<Rightarrow> lookup \<Rightarrow> lookup" where
  "lookup_steps [] s = s"
| "lookup_steps (ev # evs) s = lookup_steps evs (lookup_step ev s)"

text \<open>
  Counting in a trace: the retries of run \<open>i\<close> (the interval's log line) and the
  requests \<open>call.get()\<close> of run \<open>i\<close>.
\<close>

fun is_call_get :: "lookup_io \<Rightarrow> bool" where
  "is_call_get (CallGet c) = True"
| "is_call_get e = False"

definition retries :: "nat \<Rightarrow> (nat \<times> lookup_io) list \<Rightarrow> nat" where
  "retries i tr =
     length (filter (\<lambda>x. fst x = i
                          \<and> snd x = LConsoleLog ''useGetcallById: Retrying to get client...'') tr)"

definition fetches :: "nat \<Rightarrow> (nat \<times> lookup_io) list \<Rightarrow> nat" where
  "fetches i tr = length (filter (\<lambda>x. fst x = i \<and> is_call_get (snd x)) tr)"

fun is_tick :: "lookup_event \<Rightarrow> bool" where
  "is_tick (LkTick i) = True"
| "is_tick ev = False"

section \<open>Example inputs\<close>

text \<open>
  Two identities, the second without a name, and the clients the provider builds for
  them from the tokens \<open>t1\<close> and \<open>t2\<close>.
\<close>

definition ada :: clerk_user where
  "ada = \<lparr>uid = ''u1'', firstName = Some ''Ada'', lastName = None, imageUrl = ''a.png''\<rparr>"

definition bob :: clerk_user where
  "bob = \<lparr>uid = ''u2'', firstName = None, lastName = None, imageUrl = ''b.png''\<rparr>"

definition ada_client :: stream_client where
  "ada_client = \<lparr>serial = 0, sc_id = ''u1'', sc_name = ''Ada'', sc_image = ''a.png'',
                  sc_token = ''t1''\<rparr>"

definition bob_client :: stream_client where
  "bob_client = \<lparr>serial = 1, sc_id = ''u2'', sc_name = ''u2'', sc_image = ''b.png'',
                  sc_token = ''t2''\<rparr>"

section \<open>Invariants\<close>

text \<open>
  Predicates on the states of the two components, used in the proofs. For the provider:
  trace entries and runs carry numbers below \<open>n_runs\<close>; only the latest run can be
  mounted; a run suspended at the token has no client and has published nothing; the
  clients not yet disconnected are the client of a mounted latest run; a run is
  \<open>dead\<close> when its cleanup has run and it has published nothing.
\<close>

definition tags_ok :: "provider \<Rightarrow> bool" where
  "tags_ok s = ((\<forall>j e. (j, e) \<in> set (io s) \<longrightarrow> j < n_runs s)
                \<and> (\<forall>i r. runs s i = Some r \<longrightarrow> i < n_runs s))"

definition one_mounted :: "provider \<Rightarrow> bool" where
  "one_mounted s = (\<forall>i r. runs s i = Some r \<and> mounted r \<longrightarrow> Suc i = n_runs s)"

definition all_unmounted :: "provider \<Rightarrow> bool" where
  "all_unmounted s = (\<forall>i r. runs s i = Some r \<longrightarrow> \<not> mounted r)"

definition pending_clean :: "provider \<Rightarrow> bool" where
  "pending_clean s =
     (\<forall>i r. runs s i = Some r \<and> awaited r \<noteq> None \<longrightarrow>
        client r = None \<and> (\<forall>e. (i, e) \<in> set (io s) \<longrightarrow> \<not> is_publish e))"


definition pinv :: "provider \<Rightarrow> bool" where
  "pinv s = (tags_ok s \<and> one_mounted s \<and> pending_clean s)"

definition dead :: "nat \<Rightarrow> provider \<Rightarrow> bool" where
  "dead i s = (i < n_runs s \<and> (\<exists>r. runs s i = Some r \<and> \<not> mounted r)
               \<and> (\<forall>e. (i, e) \<in> set (io s) \<longrightarrow> \<not> is_publish e))"

text \<open>
  For the lookup hook: the same numbering; only the latest run, while mounted, has its
  interval; no run has one (\<open>lk_quiet\<close>); a run that has the client has asked for
  the call once and never retried.
\<close>

definition lk_tags_ok :: "lookup \<Rightarrow> bool" where
  "lk_tags_ok s = ((\<forall>j e. (j, e) \<in> set (lk_io s) \<longrightarrow> j < lk_n s)
                   \<and> (\<forall>i r. lk_runs s i = Some r \<longrightarrow> i < lk_n s))"

definition interval_last :: "lookup \<Rightarrow> bool" where
  "interval_last s =
     (\<forall>i r. lk_runs s i = Some r \<and> retryInterval r \<longrightarrow> lk_mounted r \<and> Suc i = lk_n s)"

definition lk_quiet :: "lookup \<Rightarrow> bool" where
  "lk_quiet s = (\<forall>i r. lk_runs s i = Some r \<longrightarrow> \<not> retryInterval r)"

definition with_client :: "nat \<Rightarrow> lookup \<Rightarrow> bool" where
  "with_client i s =
     (i < lk_n s \<and> (\<exists>r. lk_runs s i = Some r \<and> lk_client r)
      \<and> fetches i (lk_io s) = 1 \<and> retries i (lk_io s) = 0)"

section \<open>Properties of the role resolver\<close>

text \<open>
  C9. When the directory query has returned \<open>null\<close>, the resolver reports not loading,
  not interviewer and not candidate; while the query is pending (\<open>undefined\<close>) it
  reports loading, and it reports loading in no other case. With no identity the hook
  still returns its three flags, computed from the query on the empty key: the source
  has no failing branch, so the model has none.
\<close>

theorem role_resolver_gating:
  "(useQuery (lookup_key user) = Null \<longrightarrow>
      useUSerRole user useQuery =
        \<lparr>isLoading = False, isInterviewer = False, isCandidate = False\<rparr>)
   \<and> (useQuery (lookup_key user) = Undefined \<longrightarrow> isLoading (useUSerRole user useQuery))
   \<and> isLoading (useUSerRole user useQuery) = (useQuery (lookup_key user) = Undefined)
   \<and> useUSerRole None useQuery =
       \<lparr>isLoading = (useQuery '''' = Undefined),
        isInterviewer = role_is (useQuery '''') ''interviewer'',
        isCandidate = role_is (useQuery '''') ''candidate''\<rparr>"
  by (auto simp: useUSerRole_def role_is_def lookup_key_def Let_def)

theorem role_resolver_gating_witness:
  "useUSerRole None (\<lambda>k. Null) = \<lparr>isLoading = False, isInterviewer = False, isCandidate = False\<rparr>
   \<and> isLoading (useUSerRole None (\<lambda>k. Undefined))"
  using role_resolver_gating [of "\<lambda>k. Null" None] role_resolver_gating [of "\<lambda>k. Undefined" None]
  by simp

section \<open>Properties of the meeting actions\<close>

text \<open>
  C4. With a ready client, \<open>createInstantMeeting\<close> requests the creation first and
  pushes \<open>/meetings/<id>\<close>, with the generated id, only in the part that runs after
  the request has resolved successfully; the part before the \<open>await\<close> never navigates. When the request fails there is no
  navigation; the error is logged and one of two messages is shown, the
  connection message exactly for an \<open>Error\<close> whose message includes \<open>token\<close>.
  In general a navigation is in the trace only if the client was there, an id was
  generated and the creation succeeded.
\<close>

theorem create_before_navigate:
  "createInstantMeeting True (Inr cid) now (Inr ()) =
     [CallGetOrCreate ''default'' cid now ''Instant Meeting'',
      RouterPush (''/meetings/'' @ cid), ToastSuccess ''Meeting Created'']
   \<and> createInstantMeeting True (Inr cid) now (Inl error) =
     [CallGetOrCreate ''default'' cid now ''Instant Meeting'',
      ConsoleError error, ToastError (create_failure_message error)]
   \<and> RouterPush p \<notin> set (createInstantMeeting_start ready uuid now)
   \<and> (RouterPush p \<in> set (createInstantMeeting ready uuid now created) \<longrightarrow>
        ready \<and> created = Inr () \<and> (\<exists>cid. uuid = Inr cid \<and> p = ''/meetings/'' @ cid))
   \<and> create_failure_message error \<in>
        {''Connection not ready. Please try again in a moment.'',
         ''Failed to create meeting. Please try again.''}
   \<and> (create_failure_message error = ''Connection not ready. Please try again in a moment.'')
       = (\<exists>m. error = ErrorObj m \<and> includes_str m ''token'')"
  by (auto simp: createInstantMeeting_def createInstantMeeting_start_def
      createInstantMeeting_resume_def create_failure_message_def
      split: sum.splits js_thrown.splits if_splits)

theorem create_before_navigate_witness:
  "RouterPush ''/meetings/abc-123'' \<in> set (createInstantMeeting True (Inr ''abc-123'') ''T'' (Inr ()))
   \<and> (\<exists>cid. (Inr ''abc-123'' :: js_thrown + string) = Inr cid
            \<and> ''/meetings/abc-123'' = ''/meetings/'' @ cid)"
  using create_before_navigate
    [where cid = "''abc-123''" and now = "''T''" and error = NonError
       and p = "''/meetings/abc-123''" and ready = True and uuid = "Inr ''abc-123''"
       and created = "Inr ()"]
  by simp

section \<open>Properties of the join modal\<close>

lemma split_str_not_Nil: "split_str sep s \<noteq> []"
  by (induction s) (auto split: list.splits)

lemma split_str_no_sep: "sep \<notin> set s \<Longrightarrow> split_str sep s = [s]"
  by (induction s) auto

lemma split_str_first_sep:
  "sep \<notin> set a \<Longrightarrow> split_str sep (a @ sep # b) = a # split_str sep b"
  by (induction a) auto

lemma final_segment_no_sep: "CHR ''/'' \<notin> set s \<Longrightarrow> final_segment s = s"
proof -
  assume "CHR ''/'' \<notin> set s"
  then have "takeWhile (\<lambda>c. c \<noteq> CHR ''/'') (rev s) = rev s"
    by auto
  then show ?thesis unfolding final_segment_def by (simp only: rev_rev_ident)
qed

lemma final_segment_after_sep: "final_segment (a @ CHR ''/'' # b) = final_segment b"
  by (simp add: final_segment_def takeWhile_tail)

lemma last_split_str: "last (split_str CHR ''/'' s) = final_segment s"
proof (induction "length s" arbitrary: s rule: less_induct)
  case less
  show ?case
  proof (cases "CHR ''/'' \<in> set s")
    case False
    then show ?thesis by (simp add: split_str_no_sep final_segment_no_sep)
  next
    case True
    then obtain a b where s: "s = a @ CHR ''/'' # b" and a: "CHR ''/'' \<notin> set a"
      by (auto dest: split_list_first)
    have "length b < length s" using s by simp
    then have "last (split_str CHR ''/'' b) = final_segment b" by (rule less)
    then show ?thesis
      using a s by (simp add: split_str_first_sep split_str_not_Nil final_segment_after_sep)
  qed
qed

lemma pop_split_str: "pop (split_str CHR ''/'' url) = Some (final_segment url)"
  by (simp add: pop_def split_str_not_Nil last_split_str)

lemma final_segment_no_slash: "CHR ''/'' \<notin> set (final_segment url)"
  unfolding final_segment_def using set_takeWhileD by fastforce

lemma final_segment_suffix:
  "\<exists>pre. url = pre @ final_segment url \<and> (pre = [] \<or> last pre = CHR ''/'')"
proof (cases "CHR ''/'' \<in> set url")
  case False
  then show ?thesis by (simp add: final_segment_no_sep)
next
  case True
  then obtain a b where s: "url = a @ CHR ''/'' # b" and b: "CHR ''/'' \<notin> set b"
    by (auto dest: split_list_last)
  have "final_segment url = b"
    using s b by (simp add: final_segment_after_sep final_segment_no_sep)
  then have "url = (a @ [CHR ''/'']) @ final_segment url \<and> last (a @ [CHR ''/'']) = CHR ''/''"
    using s by simp
  then show ?thesis by blast
qed

lemma final_segment_trailing: "url \<noteq> [] \<Longrightarrow> last url = CHR ''/'' \<Longrightarrow> final_segment url = []"
  by (cases url rule: rev_cases) (auto simp: final_segment_def)

text \<open>
  C10. In the join modal the id handed to \<open>joinMeeting\<close> is the final segment of the
  pasted link: the text after its last \<open>/\<close>. When that segment is empty, as it is
  for a link ending in \<open>/\<close>, pressing the button neither navigates nor reports
  an error, and still clears the input and closes the modal.
\<close>

theorem join_modal_final_segment:
  "pop (split_str CHR ''/'' url) = Some (final_segment url)
   \<and> CHR ''/'' \<notin> set (final_segment url)
   \<and> (\<exists>pre. url = pre @ final_segment url \<and> (pre = [] \<or> last pre = CHR ''/''))
   \<and> handleStart True ready url uuid now created =
       (if final_segment url = [] then [] else joinMeeting ready (final_segment url))
       @ [SetMeetingURL '''', OnClose]
   \<and> (url \<noteq> [] \<and> last url = CHR ''/'' \<longrightarrow>
        handleStart True ready url uuid now created = [SetMeetingURL '''', OnClose])"
  using final_segment_suffix [of url]
  by (simp add: pop_split_str final_segment_no_slash handleStart_def final_segment_trailing)

theorem join_modal_final_segment_witness:
  "handleStart True True ''https://host/meetings/'' (Inr ''u'') ''t'' (Inr ()) =
     [SetMeetingURL '''', OnClose]
   \<and> handleStart True True ''https://host/meetings/abc'' (Inr ''u'') ''t'' (Inr ()) =
     [RouterPush ''/meetings/abc'', SetMeetingURL '''', OnClose]"
  using join_modal_final_segment [of "''https://host/meetings/''" True "Inr ''u''" "''t''" "Inr ()"]
    join_modal_final_segment [of "''https://host/meetings/abc''" True "Inr ''u''" "''t''" "Inr ()"]
  by (simp add: final_segment_def joinMeeting_def)

section \<open>Properties of the directory sync\<close>

lemma find_patch:
  "find (\<lambda>d. clerkId d = k) ds = Some d \<Longrightarrow>
   find (\<lambda>d. clerkId d = k)
     (map (\<lambda>x. if doc_id x = doc_id d
                then x\<lparr>name := n, email := e, image := i\<rparr> else x) ds)
   = Some (d\<lparr>name := n, email := e, image := i\<rparr>)"
  by (induction ds) (auto split: if_splits)

lemma find_None_filter: "find P ds = None \<Longrightarrow> filter P ds = []"
  by (induction ds) (auto split: if_splits)

lemma find_append_None: "find P xs = None \<Longrightarrow> find P (xs @ ys) = find P ys"
  by (induction xs) (auto split: if_splits)

lemma filter_patch_length:
  "length (filter (\<lambda>d. clerkId d = k)
     (map (\<lambda>x. if doc_id x = j then x\<lparr>name := n, email := e, image := i\<rparr> else x) ds))
   = length (filter (\<lambda>d. clerkId d = k) ds)"
  by (induction ds) auto

lemma patch_twice:
  "map (\<lambda>x. if doc_id x = j then x\<lparr>name := n, email := e, image := i\<rparr> else x)
     (map (\<lambda>x. if doc_id x = j then x\<lparr>name := n, email := e, image := i\<rparr> else x) ds)
   = map (\<lambda>x. if doc_id x = j then x\<lparr>name := n, email := e, image := i\<rparr> else x) ds"
  by (induction ds) auto

lemma patch_fresh:
  "list_all (\<lambda>d. doc_id d < j) ds \<Longrightarrow>
   map (\<lambda>x. if doc_id x = j then x\<lparr>name := n, email := e, image := i\<rparr> else x) ds = ds"
  by (induction ds) auto




lemma patch_idem: "patch (patch db j args) j args = patch db j args"
  by (simp add: patch_def patch_twice del: map_map)

lemma first_patch:
  "first_by_clerk_id db (a_clerkId args) = Some d \<Longrightarrow>
   first_by_clerk_id (patch db (doc_id d) args) (a_clerkId args) =
     Some (d\<lparr>name := a_name args, email := a_email args, image := a_image args\<rparr>)"
  by (simp add: first_by_clerk_id_def patch_def find_patch)

lemma count_patch:
  "length (filter (\<lambda>d. clerkId d = k) (users (patch db j args))) =
   length (filter (\<lambda>d. clerkId d = k) (users db))"
proof -
  have "users (patch db j args) =
        map (\<lambda>x. if doc_id x = j
                  then x\<lparr>name := a_name args, email := a_email args, image := a_image args\<rparr>
                  else x) (users db)"
    by (simp add: patch_def)
  then show ?thesis by (simp only: filter_patch_length)
qed

lemma syncUser_existing:
  "first_by_clerk_id db (a_clerkId args) = Some d \<Longrightarrow>
   syncUser db args now = (None, patch db (doc_id d) args)"
  by (simp add: syncUser_def)

text \<open>
  C6. In a table whose ids were issued by its counter and that holds at most one record
  of the external id, two syncs with the same input leave exactly one record of that
  id; the second sync changes nothing in the table, and the record's name, email and
  avatar are those of the input. (The times of the two calls may differ.)
\<close>

theorem sync_idempotent:
  assumes "ids_issued db"
    and "length (filter (\<lambda>d. clerkId d = a_clerkId args) (users db)) \<le> 1"
  shows "length (filter (\<lambda>d. clerkId d = a_clerkId args)
                   (users (snd (syncUser (snd (syncUser db args t1)) args t2)))) = 1
         \<and> snd (syncUser (snd (syncUser db args t1)) args t2) = snd (syncUser db args t1)
         \<and> (\<exists>d. first_by_clerk_id (snd (syncUser (snd (syncUser db args t1)) args t2))
                   (a_clerkId args) = Some d
                 \<and> name d = a_name args \<and> email d = a_email args \<and> image d = a_image args)"
proof (cases "first_by_clerk_id db (a_clerkId args)")
  case None
  then have none: "filter (\<lambda>d. clerkId d = a_clerkId args) (users db) = []"
    and fnone: "find (\<lambda>d. clerkId d = a_clerkId args) (users db) = None"
    by (simp_all add: first_by_clerk_id_def find_None_filter)
  have fresh: "list_all (\<lambda>d. doc_id d < next_id db) (users db)"
    using assms(1) by (simp add: ids_issued_def)
  show ?thesis
    using None none fnone
    by (simp add: syncUser_def first_by_clerk_id_def insert_user_def patch_def
        find_append_None patch_fresh [OF fresh])
next
  case (Some d)
  let ?d' = "d\<lparr>name := a_name args, email := a_email args, image := a_image args\<rparr>"
  let ?db1 = "patch db (doc_id d) args"
  have s1: "snd (syncUser db args t1) = ?db1"
    using Some by (simp add: syncUser_existing)
  have f1: "first_by_clerk_id ?db1 (a_clerkId args) = Some ?d'"
    using Some by (rule first_patch)
  have s2: "snd (syncUser ?db1 args t2) = ?db1"
    using syncUser_existing [OF f1, of t2] by (simp add: patch_idem)
  have "find (\<lambda>d. clerkId d = a_clerkId args) (users db) = Some d"
    using Some by (simp add: first_by_clerk_id_def)
  then have "d \<in> set (filter (\<lambda>d. clerkId d = a_clerkId args) (users db))"
    by (auto simp: find_Some_iff)
  then have "filter (\<lambda>d. clerkId d = a_clerkId args) (users db) \<noteq> []"
    by (metis empty_iff empty_set)
  then have one: "length (filter (\<lambda>d. clerkId d = a_clerkId args) (users db)) = 1"
    using assms(2) by (cases "filter (\<lambda>d. clerkId d = a_clerkId args) (users db)") auto
  have c: "length (filter (\<lambda>d. clerkId d = a_clerkId args) (users ?db1)) = 1"
    using one by (simp only: count_patch)
  show ?thesis
    unfolding s1 s2 using c f1 by simp
qed

theorem sync_idempotent_witness:
  "ids_issued \<lparr>users = [], next_id = 0\<rparr>
   \<and> snd (syncUser (snd (syncUser \<lparr>users = [], next_id = 0\<rparr>
       \<lparr>a_name = ''Ada L'', a_email = ''ada@example.org'', a_clerkId = ''u1'', a_image = None\<rparr> 17))
       \<lparr>a_name = ''Ada L'', a_email = ''ada@example.org'', a_clerkId = ''u1'', a_image = None\<rparr> 18)
     = \<lparr>users = [\<lparr>doc_id = 0, name = ''Ada L'', email = ''ada@example.org'', clerkId = ''u1'',
                  role = ''user'', image = None, createdAt = 17\<rparr>], next_id = 1\<rparr>"
proof -
  have a: "ids_issued \<lparr>users = [], next_id = 0\<rparr>" by (simp add: ids_issued_def)
  have b: "length (filter (\<lambda>d. clerkId d = a_clerkId
      \<lparr>a_name = ''Ada L'', a_email = ''ada@example.org'', a_clerkId = ''u1'', a_image = None\<rparr>)
      (users \<lparr>users = [], next_id = 0\<rparr>)) \<le> 1" by simp
  show ?thesis
    using a sync_idempotent [OF a b, of 17 18]
    by (simp add: syncUser_def first_by_clerk_id_def insert_user_def)
qed

section \<open>Properties of the call client lifecycle\<close>

lemma pinv_init: "pinv provider_init"
  by (simp add: pinv_def tags_ok_def one_mounted_def pending_clean_def provider_init_def)


subsection \<open>teardown\<close>

lemma teardown_n_runs: "n_runs (teardown hidden disc s) = n_runs s"
  by (simp add: teardown_def cleanup_def Let_def split: nat.splits option.splits)

lemma teardown_svc: "streamVideoClient (teardown hidden disc s) = streamVideoClient s"
  by (simp add: teardown_def cleanup_def Let_def split: nat.splits option.splits)

lemma teardown_runs:
  "runs (teardown hidden disc s) i = Some r' \<Longrightarrow>
   \<exists>r. runs s i = Some r \<and> client r' = client r \<and> awaited r' = awaited r
       \<and> (mounted r' \<longrightarrow> mounted r \<and> Suc i \<noteq> n_runs s)"
  by (auto simp: teardown_def cleanup_def Let_def split: nat.splits option.splits if_splits)

lemma teardown_io:
  "(j, e) \<in> set (io (teardown hidden disc s)) \<Longrightarrow>
   (j, e) \<in> set (io s) \<or> (Suc j = n_runs s \<and> \<not> is_publish e)"
  by (auto simp: teardown_def cleanup_def Let_def split: nat.splits option.splits if_splits)

subsection \<open>run_effect\<close>

lemma run_effect_n_runs: "n_runs (run_effect user isLoaded s) = Suc (n_runs s)"
  by (simp add: run_effect_def Let_def)

lemma run_effect_svc: "streamVideoClient (run_effect user isLoaded s) = streamVideoClient s"
  by (simp add: run_effect_def Let_def)

lemma run_effect_live: "live (run_effect user isLoaded s) = live s"
  by (simp add: run_effect_def Let_def)

lemma run_effect_runs:
  "runs (run_effect user isLoaded s) i = Some r' \<Longrightarrow>
   (i = n_runs s \<and> mounted r' \<and> client r' = None) \<or> (i \<noteq> n_runs s \<and> runs s i = Some r')"
  by (auto simp: run_effect_def Let_def split: if_splits)

lemma run_effect_io:
  "(j, e) \<in> set (io (run_effect user isLoaded s)) \<Longrightarrow>
   (j, e) \<in> set (io s) \<or> (j = n_runs s \<and> \<not> is_publish e)"
  by (auto simp: run_effect_def Let_def split: if_splits)

subsection \<open>initClient_resume\<close>

lemma resume_n_runs: "n_runs (initClient_resume i token ctor s) = n_runs s"
  by (simp add: initClient_resume_def Let_def split: option.splits sum.splits)

lemma resume_runs:
  "runs (initClient_resume i token ctor s) j = Some r' \<Longrightarrow>
   \<exists>r. runs s j = Some r \<and> mounted r' = mounted r
       \<and> (awaited r' \<noteq> None \<longrightarrow> r' = r \<and> (j = i \<longrightarrow> False))
       \<and> (client r' = client r \<or> (j = i \<and> mounted r \<and> awaited r \<noteq> None))"
  by (auto simp: initClient_resume_def Let_def split: option.splits sum.splits if_splits)

lemma resume_io:
  "(j, e) \<in> set (io (initClient_resume i token ctor s)) \<Longrightarrow>
   (j, e) \<in> set (io s)
   \<or> (j = i \<and> (\<exists>r. runs s i = Some r \<and> awaited r \<noteq> None \<and> (is_publish e \<longrightarrow> mounted r)))"
  by (auto simp: initClient_resume_def initClient_catch_def Let_def
      split: option.splits sum.splits if_splits)

subsection \<open>Invariants\<close>

lemma tags_ok_teardown: "tags_ok s \<Longrightarrow> tags_ok (teardown hidden disc s)"
  unfolding tags_ok_def teardown_n_runs
  using teardown_io [of _ _ hidden disc s] teardown_runs [of hidden disc s]
  by (metis lessI)

lemma tags_ok_run_effect: "tags_ok s \<Longrightarrow> tags_ok (run_effect user isLoaded s)"
  unfolding tags_ok_def run_effect_n_runs
  using run_effect_io [of _ _ user isLoaded s] run_effect_runs [of user isLoaded s]
  by (metis lessI less_SucI)

lemma tags_ok_resume: "tags_ok s \<Longrightarrow> tags_ok (initClient_resume i token ctor s)"
  unfolding tags_ok_def resume_n_runs
  using resume_io [of _ _ i token ctor s] resume_runs [of i token ctor s]
  by metis

lemma one_mounted_teardown: "one_mounted s \<Longrightarrow> one_mounted (teardown hidden disc s)"
  unfolding one_mounted_def teardown_n_runs
  using teardown_runs [of hidden disc s] by metis

lemma all_unmounted_teardown: "one_mounted s \<Longrightarrow> all_unmounted (teardown hidden disc s)"
  unfolding one_mounted_def all_unmounted_def
  using teardown_runs [of hidden disc s] by metis

lemma one_mounted_run_effect:
  "tags_ok s \<Longrightarrow> all_unmounted s \<Longrightarrow> one_mounted (run_effect user isLoaded s)"
  unfolding one_mounted_def all_unmounted_def run_effect_n_runs
  using run_effect_runs [of user isLoaded s] by metis

lemma one_mounted_resume: "one_mounted s \<Longrightarrow> one_mounted (initClient_resume i token ctor s)"
  unfolding one_mounted_def resume_n_runs
  using resume_runs [of i token ctor s] by metis

lemma pending_clean_teardown:
  "tags_ok s \<Longrightarrow> pending_clean s \<Longrightarrow> pending_clean (teardown hidden disc s)"
  unfolding pending_clean_def
  using teardown_io [of _ _ hidden disc s] teardown_runs [of hidden disc s]
  by metis

lemma pending_clean_run_effect:
  "tags_ok s \<Longrightarrow> pending_clean s \<Longrightarrow> pending_clean (run_effect user isLoaded s)"
  unfolding pending_clean_def tags_ok_def
  using run_effect_io [of _ _ user isLoaded s] run_effect_runs [of user isLoaded s]
  by (metis less_irrefl)

lemma pending_clean_resume:
  "pending_clean s \<Longrightarrow> pending_clean (initClient_resume i token ctor s)"
  unfolding pending_clean_def
  using resume_io [of _ _ i token ctor s] resume_runs [of i token ctor s]
  by metis

lemma step_pinv: "pinv s \<Longrightarrow> pinv (provider_step ev s)"
  by (cases ev)
    (simp_all add: pinv_def tags_ok_teardown tags_ok_run_effect tags_ok_resume
      one_mounted_teardown one_mounted_resume one_mounted_run_effect all_unmounted_teardown
      pending_clean_teardown pending_clean_run_effect pending_clean_resume)

lemma run_pinv: "pinv s \<Longrightarrow> pinv (provider_run evs s)"
  by (induction evs arbitrary: s) (simp_all add: step_pinv)

subsection \<open>Live clients\<close>










subsection \<open>Runs that were torn down\<close>

lemma teardown_dom: "runs s i = Some r \<Longrightarrow> \<exists>r'. runs (teardown hidden disc s) i = Some r'"
  by (auto simp: teardown_def cleanup_def Let_def split: nat.splits option.splits if_splits)

lemma run_effect_old: "i < n_runs s \<Longrightarrow> runs (run_effect user isLoaded s) i = runs s i"
  by (auto simp: run_effect_def Let_def)

lemma resume_dom:
  "runs s j = Some r \<Longrightarrow> \<exists>r'. runs (initClient_resume i token ctor s) j = Some r'"
  by (auto simp: initClient_resume_def Let_def split: option.splits sum.splits if_splits)

lemma dead_teardown:
  assumes "dead i s"
  shows "dead i (teardown hidden disc s)"
proof -
  from assms obtain r where r: "runs s i = Some r" "\<not> mounted r"
    and lt: "i < n_runs s"
    and np: "\<forall>e. (i, e) \<in> set (io s) \<longrightarrow> \<not> is_publish e"
    by (auto simp: dead_def)
  obtain r' where r': "runs (teardown hidden disc s) i = Some r'"
    using teardown_dom [OF r(1)] by blast
  have "\<not> mounted r'" using teardown_runs [OF r'] r by auto
  moreover have "\<forall>e. (i, e) \<in> set (io (teardown hidden disc s)) \<longrightarrow> \<not> is_publish e"
    using teardown_io np by blast
  ultimately show ?thesis using lt r' by (auto simp: dead_def teardown_n_runs)
qed

lemma dead_run_effect: "dead i s \<Longrightarrow> dead i (run_effect user isLoaded s)"
  unfolding dead_def run_effect_n_runs
  using run_effect_io [of i _ user isLoaded s] run_effect_old [of i s user isLoaded]
  by (metis less_SucI less_irrefl)

lemma dead_resume: "dead i s \<Longrightarrow> dead i (initClient_resume j token ctor s)"
  unfolding dead_def resume_n_runs
  using resume_io [of i _ j token ctor s] resume_runs [of j token ctor s i]
    resume_dom [of s i _ j token ctor]
  by (metis option.inject)

lemma dead_step: "dead i s \<Longrightarrow> dead i (provider_step ev s)"
  by (cases ev) (simp_all add: dead_teardown dead_run_effect dead_resume)

lemma dead_run: "dead i s \<Longrightarrow> dead i (provider_run evs s)"
  by (induction evs arbitrary: s) (simp_all add: dead_step)

lemma dead_teardown_last:
  assumes "n_runs s = Suc i" and "runs s i = Some r"
    and np: "\<forall>e. (i, e) \<in> set (io s) \<longrightarrow> \<not> is_publish e"
  shows "dead i (teardown hidden disc s)"
proof -
  obtain r' where r': "runs (teardown hidden disc s) i = Some r'"
    using teardown_dom [OF assms(2)] by blast
  have "\<not> mounted r'" using teardown_runs [OF r'] assms(1) by auto
  moreover have "\<forall>e. (i, e) \<in> set (io (teardown hidden disc s)) \<longrightarrow> \<not> is_publish e"
    using teardown_io np by blast
  ultimately show ?thesis using assms(1) r' by (auto simp: dead_def teardown_n_runs)
qed

subsection \<open>After the unmount\<close>

lemma resume_unmounted:
  assumes "all_unmounted s"
  shows "streamVideoClient (initClient_resume i token ctor s) = streamVideoClient s
         \<and> live (initClient_resume i token ctor s) = live s
         \<and> filter (\<lambda>x. is_publish (snd x)) (io (initClient_resume i token ctor s))
             = filter (\<lambda>x. is_publish (snd x)) (io s)"
proof -
  have "\<And>r. runs s i = Some r \<Longrightarrow> \<not> mounted r"
    using assms by (simp add: all_unmounted_def)
  then show ?thesis
    by (auto simp: initClient_resume_def initClient_catch_def Let_def
        split: option.splits sum.splits)
qed

lemma all_unmounted_resume:
  "all_unmounted s \<Longrightarrow> all_unmounted (initClient_resume i token ctor s)"
  unfolding all_unmounted_def using resume_runs [of i token ctor s] by metis

lemma settles_unmounted:
  "all_unmounted s \<Longrightarrow> \<forall>ev\<in>set evs. is_settle ev \<Longrightarrow>
   streamVideoClient (provider_run evs s) = streamVideoClient s
   \<and> live (provider_run evs s) = live s
   \<and> filter (\<lambda>x. is_publish (snd x)) (io (provider_run evs s)) = filter (\<lambda>x. is_publish (snd x)) (io s)"
proof (induction evs arbitrary: s)
  case Nil
  then show ?case by simp
next
  case (Cons ev evs)
  then obtain i token ctor where ev: "ev = TokenSettled i token ctor"
    by (cases ev) auto
  have "all_unmounted (provider_step ev s)"
    using Cons.prems(1) ev by (simp add: all_unmounted_resume)
  then show ?case
    using Cons.IH [of "provider_step ev s"] Cons.prems resume_unmounted [of s i token ctor] ev
    by simp
qed

lemma teardown_publish:
  "filter (\<lambda>x. is_publish (snd x)) (io (teardown hidden disc s)) = filter (\<lambda>x. is_publish (snd x)) (io s)"
  by (auto simp: teardown_def cleanup_def Let_def split: nat.splits option.splits)

lemmas provider_defs =
  provider_init_def run_effect_def teardown_def cleanup_def initClient_resume_def
  initClient_catch_def Let_def

lemmas example_defs =
  ada_def bob_def ada_client_def bob_client_def display_name_def trim_def is_space_def or_empty_def





text \<open>
  C2. Take a run of the effect whose token request is still pending when its cleanup
  runs (at the unmount, or before a re-run). Whatever happens afterwards, that run
  never constructs a client and never calls \<open>setStreamVideoClient\<close>. After the
  unmount, when only token promises can still settle, the state
  \<open>streamVideoClient\<close> keeps its value and no run adds a construction or a
  publication to the trace.
\<close>

theorem no_publish_after_unmount:
  assumes "s = provider_run evs provider_init"
    and "n_runs s = Suc i" and "runs s i = Some r" and "awaited r \<noteq> None"
    and "is_teardown ev"
  shows "(\<forall>e. (i, e) \<in> set (io (provider_run evs' (provider_step ev s))) \<longrightarrow> \<not> is_publish e)
       \<and> ((\<forall>x\<in>set evs''. is_settle x) \<longrightarrow>
            streamVideoClient (provider_run evs'' (provider_step (Unmount hidden disc) s))
              = streamVideoClient s
            \<and> published (io (provider_run evs'' (provider_step (Unmount hidden disc) s)))
              = published (io s))"
proof -
  have p: "pinv s" using assms(1) by (simp add: run_pinv pinv_init)
  then have np: "\<forall>e. (i, e) \<in> set (io s) \<longrightarrow> \<not> is_publish e"
    using assms(3,4) unfolding pinv_def pending_clean_def by blast
  have "dead i (provider_step ev s)"
  proof (cases ev)
    case (Render user isLoaded h d)
    then show ?thesis
      using dead_teardown_last [OF assms(2,3) np] by (simp add: dead_run_effect)
  next
    case (Unmount h d)
    then show ?thesis using dead_teardown_last [OF assms(2,3) np] by simp
  next
    case (TokenSettled j token ctor)
    then show ?thesis using assms(5) by simp
  qed
  then have "dead i (provider_run evs' (provider_step ev s))" by (rule dead_run)
  then have a: "\<forall>e. (i, e) \<in> set (io (provider_run evs' (provider_step ev s))) \<longrightarrow> \<not> is_publish e"
    by (simp add: dead_def)
  have u: "all_unmounted (teardown hidden disc s)"
    using p by (simp add: pinv_def all_unmounted_teardown)
  have b: "streamVideoClient (provider_run evs'' (provider_step (Unmount hidden disc) s))
              = streamVideoClient s
            \<and> published (io (provider_run evs'' (provider_step (Unmount hidden disc) s)))
              = published (io s)" if "\<forall>x\<in>set evs''. is_settle x"
    using settles_unmounted [OF u that] by (simp add: published_def teardown_svc teardown_publish)
  show ?thesis using a b by blast
qed

theorem no_publish_after_unmount_witness:
  "is_teardown (Unmount False None) \<and> is_settle (TokenSettled 0 (Inr ''t1'') None)
   \<and> published (io (provider_run
        [Render (Some ada) True False None, Unmount False None, TokenSettled 0 (Inr ''t1'') None]
        provider_init)) = []
   \<and> streamVideoClient (provider_run
        [Render (Some ada) True False None, Unmount False None, TokenSettled 0 (Inr ''t1'') None]
        provider_init) = None"
  using no_publish_after_unmount
    [where s = "provider_run [Render (Some ada) True False None] provider_init"
       and evs = "[Render (Some ada) True False None]"
       and i = 0
       and r = "\<lparr>mounted = True, client = None, awaited = Some ada\<rparr>"
       and ev = "Unmount False None"
       and evs' = "[TokenSettled 0 (Inr ''t1'') None]"
       and evs'' = "[TokenSettled 0 (Inr ''t1'') None]"
       and hidden = False and disc = None]
  by (simp add: provider_defs example_defs published_def)




section \<open>Properties of the call lookup\<close>

lemma retries_append [simp]: "retries i (xs @ ys) = retries i xs + retries i ys"
  by (simp add: retries_def)

lemma fetches_append [simp]: "fetches i (xs @ ys) = fetches i xs + fetches i ys"
  by (simp add: fetches_def)

lemma retries_Nil [simp]: "retries i [] = 0"
  by (simp add: retries_def)

lemma fetches_Nil [simp]: "fetches i [] = 0"
  by (simp add: fetches_def)

lemma retries_Cons [simp]:
  "retries i (x # xs) =
     (if fst x = i \<and> snd x = LConsoleLog ''useGetcallById: Retrying to get client...''
      then Suc (retries i xs) else retries i xs)"
  by (simp add: retries_def)

lemma fetches_Cons [simp]:
  "fetches i (x # xs) = (if fst x = i \<and> is_call_get (snd x) then Suc (fetches i xs) else fetches i xs)"
  by (simp add: fetches_def)

subsection \<open>Ticks without a client\<close>

lemma tick_no_client:
  "lk_runs s i = Some r \<Longrightarrow> retryInterval r \<Longrightarrow> \<not> lk_client r \<Longrightarrow>
   lookup_tick i s =
     s\<lparr>lk_io := lk_io s @
        [(i, LConsoleLog ''useGetcallById: Retrying to get client...''),
         (i, LConsoleLog ''useGetcallById: No client available, waiting...'')]\<rparr>"
  by (simp add: lookup_tick_def getCall_def)

lemma ticks_no_client:
  "lk_runs s i = Some r \<Longrightarrow> retryInterval r \<Longrightarrow> \<not> lk_client r \<Longrightarrow>
   lk_runs (lookup_steps (replicate n (LkTick i)) s) = lk_runs s
   \<and> retries i (lk_io (lookup_steps (replicate n (LkTick i)) s)) = retries i (lk_io s) + n
   \<and> fetches i (lk_io (lookup_steps (replicate n (LkTick i)) s)) = fetches i (lk_io s)"
proof (induction n arbitrary: s)
  case 0
  then show ?case by simp
next
  case (Suc n)
  let ?s' = "lookup_tick i s"
  have eq: "?s' = s\<lparr>lk_io := lk_io s @
        [(i, LConsoleLog ''useGetcallById: Retrying to get client...''),
         (i, LConsoleLog ''useGetcallById: No client available, waiting...'')]\<rparr>"
    using Suc.prems by (rule tick_no_client)
  then have "lk_runs ?s' i = Some r" using Suc.prems(1) by simp
  from Suc.IH [OF this Suc.prems(2,3)] show ?case
    by (simp add: eq)
qed

subsection \<open>Steps\<close>

lemma getCall_n: "lk_n (getCall i s) = lk_n s"
  by (simp add: getCall_def split: option.splits)

lemma with_client_getCall_other: "with_client i s \<Longrightarrow> j \<noteq> i \<Longrightarrow> with_client i (getCall j s)"
  by (auto simp: with_client_def getCall_def split: option.splits)

lemma with_client_tick: "with_client i s \<Longrightarrow> with_client i (lookup_tick j s)"
  by (auto simp: with_client_def lookup_tick_def getCall_def split: option.splits)

lemma with_client_resume: "with_client i s \<Longrightarrow> with_client i (getCall_resume j result s)"
  by (auto simp: with_client_def getCall_resume_def Let_def
      split: option.splits nat.splits sum.splits)

lemma with_client_teardown: "with_client i s \<Longrightarrow> with_client i (lookup_teardown s)"
  by (auto simp: with_client_def lookup_teardown_def lookup_cleanup_def
      split: option.splits nat.splits)

lemma with_client_effect: "with_client i s \<Longrightarrow> with_client i (lookup_effect c cid s)"
  by (auto simp: with_client_def lookup_effect_def getCall_def Let_def)

lemma with_client_step: "with_client i s \<Longrightarrow> with_client i (lookup_step ev s)"
  by (cases ev) (simp_all add: with_client_tick with_client_resume with_client_teardown
      with_client_effect)

lemma with_client_steps: "with_client i s \<Longrightarrow> with_client i (lookup_steps evs s)"
  by (induction evs arbitrary: s) (simp_all add: with_client_step)

lemma lk_tags_ok_init: "lk_tags_ok lookup_init"
  by (simp add: lk_tags_ok_def lookup_init_def)

lemma lk_tags_ok_teardown: "lk_tags_ok s \<Longrightarrow> lk_tags_ok (lookup_teardown s)"
  by (auto simp: lk_tags_ok_def lookup_teardown_def lookup_cleanup_def
      split: option.splits nat.splits if_splits)

lemma lk_tags_ok_effect: "lk_tags_ok s \<Longrightarrow> lk_tags_ok (lookup_effect c cid s)"
  by (auto simp: lk_tags_ok_def lookup_effect_def getCall_def Let_def less_Suc_eq
      split: if_splits)

lemma lk_tags_ok_tick: "lk_tags_ok s \<Longrightarrow> lk_tags_ok (lookup_tick i s)"
  by (auto simp: lk_tags_ok_def lookup_tick_def getCall_def split: option.splits if_splits)

lemma lk_tags_ok_resume: "lk_tags_ok s \<Longrightarrow> lk_tags_ok (getCall_resume i result s)"
  by (auto simp: lk_tags_ok_def getCall_resume_def Let_def
      split: option.splits nat.splits sum.splits if_splits)

lemma lk_tags_ok_step: "lk_tags_ok s \<Longrightarrow> lk_tags_ok (lookup_step ev s)"
  by (cases ev) (simp_all add: lk_tags_ok_teardown lk_tags_ok_effect lk_tags_ok_tick
      lk_tags_ok_resume)

lemma lk_tags_ok_steps: "lk_tags_ok s \<Longrightarrow> lk_tags_ok (lookup_steps evs s)"
  by (induction evs arbitrary: s) (simp_all add: lk_tags_ok_step)

lemma fresh_counts:
  assumes "lk_tags_ok s"
  shows "retries (lk_n s) (lk_io s) = 0 \<and> fetches (lk_n s) (lk_io s) = 0"
proof -
  have "\<forall>x\<in>set (lk_io s). fst x \<noteq> lk_n s"
    using assms by (auto simp: lk_tags_ok_def)
  then have "filter (\<lambda>x. fst x = lk_n s \<and> P x) (lk_io s) = []" for P
    by (simp add: filter_empty_conv)
  then show ?thesis by (simp add: retries_def fetches_def)
qed

lemma lookup_teardown_n: "lk_n (lookup_teardown s) = lk_n s"
  by (simp add: lookup_teardown_def lookup_cleanup_def split: option.splits nat.splits)

lemma with_client_render:
  assumes "lk_tags_ok s"
  shows "with_client (lk_n s) (lookup_step (LkRender True cid) s)"
proof -
  let ?t = "lookup_teardown s"
  have "lk_tags_ok ?t" using assms by (rule lk_tags_ok_teardown)
  then have "retries (lk_n ?t) (lk_io ?t) = 0 \<and> fetches (lk_n ?t) (lk_io ?t) = 0"
    by (rule fresh_counts)
  then have "with_client (lk_n ?t) (lookup_effect True cid ?t)"
    by (simp add: with_client_def lookup_effect_def getCall_def Let_def)
  then show ?thesis by (simp add: lookup_teardown_n)
qed

lemma retry_count_from:
  assumes "lk_tags_ok s"
  shows "retries (lk_n s)
           (lk_io (lookup_steps (LkRender False cid # replicate n (LkTick (lk_n s))) s)) = n
         \<and> fetches (lk_n s)
           (lk_io (lookup_steps (LkRender False cid # replicate n (LkTick (lk_n s))) s)) = 0"
proof -
  let ?t = "lookup_teardown s"
  let ?s = "lookup_effect False cid ?t"
  have "lk_tags_ok ?t" using assms by (rule lk_tags_ok_teardown)
  then have z: "retries (lk_n ?t) (lk_io ?t) = 0 \<and> fetches (lk_n ?t) (lk_io ?t) = 0"
    by (rule fresh_counts)
  have r: "lk_runs ?s (lk_n s) = Some \<lparr>lk_mounted = True, lk_client = False, lk_id = cid,
                        retryInterval = True, lk_pending = 0\<rparr>"
    by (simp add: lookup_effect_def getCall_def Let_def lookup_teardown_n)
  have c: "retries (lk_n s) (lk_io ?s) = 0 \<and> fetches (lk_n s) (lk_io ?s) = 0"
    using z by (simp add: lookup_effect_def getCall_def Let_def lookup_teardown_n)
  from ticks_no_client [OF r, of n] c show ?thesis by simp
qed

subsection \<open>Intervals\<close>

lemma interval_last_init: "interval_last lookup_init"
  by (simp add: interval_last_def lookup_init_def)

lemma lookup_teardown_runs:
  "lk_runs (lookup_teardown s) i = Some r' \<Longrightarrow>
   \<exists>r. lk_runs s i = Some r
       \<and> (retryInterval r' \<longrightarrow> retryInterval r \<and> (Suc i = lk_n s \<longrightarrow> \<not> lk_mounted r))
       \<and> (lk_mounted r' \<longrightarrow> lk_mounted r)"
  by (auto simp: lookup_teardown_def lookup_cleanup_def split: option.splits nat.splits if_splits)

lemma lk_quiet_teardown: "interval_last s \<Longrightarrow> lk_quiet (lookup_teardown s)"
  unfolding interval_last_def lk_quiet_def
  using lookup_teardown_runs [of s] by metis

lemma interval_last_teardown: "interval_last s \<Longrightarrow> interval_last (lookup_teardown s)"
  using lk_quiet_teardown [of s] unfolding interval_last_def lk_quiet_def by metis

lemma lookup_effect_n: "lk_n (lookup_effect c cid s) = Suc (lk_n s)"
  by (simp add: lookup_effect_def getCall_def Let_def)

lemma lookup_effect_runs:
  "lk_runs (lookup_effect c cid s) i = Some r' \<Longrightarrow>
   (i = lk_n s \<and> lk_mounted r') \<or> (i \<noteq> lk_n s \<and> lk_runs s i = Some r')"
  by (auto simp: lookup_effect_def getCall_def Let_def split: if_splits)

lemma interval_last_effect: "lk_quiet s \<Longrightarrow> interval_last (lookup_effect c cid s)"
  unfolding interval_last_def lk_quiet_def lookup_effect_n
  using lookup_effect_runs [of c cid s] by metis

lemma interval_last_tick: "interval_last s \<Longrightarrow> interval_last (lookup_tick i s)"
  by (auto simp: interval_last_def lookup_tick_def getCall_def split: option.splits if_splits)

lemma interval_last_resume: "interval_last s \<Longrightarrow> interval_last (getCall_resume i result s)"
  by (auto simp: interval_last_def getCall_resume_def Let_def
      split: option.splits nat.splits sum.splits if_splits)

lemma interval_last_step: "interval_last s \<Longrightarrow> interval_last (lookup_step ev s)"
  by (cases ev) (simp_all add: interval_last_teardown interval_last_effect lk_quiet_teardown
      interval_last_tick interval_last_resume)

lemma interval_last_steps: "interval_last s \<Longrightarrow> interval_last (lookup_steps evs s)"
  by (induction evs arbitrary: s) (simp_all add: interval_last_step)

lemma tick_quiet: "lk_quiet s \<Longrightarrow> lookup_tick i s = s"
  by (auto simp: lk_quiet_def lookup_tick_def split: option.splits)

lemma ticks_quiet: "lk_quiet s \<Longrightarrow> \<forall>x\<in>set evs. is_tick x \<Longrightarrow> lookup_steps evs s = s"
proof (induction evs)
  case Nil
  then show ?case by simp
next
  case (Cons ev evs)
  then obtain i where "ev = LkTick i" by (cases ev) auto
  then show ?case using Cons by (simp add: tick_quiet)
qed

text \<open>
  C7, as the code has it. An effect run of the hook that has no client sets an interval
  of 1000 ms, and every tick of it is a retry that re-enters \<open>getCall\<close> and returns
  without a request: \<open>n\<close> ticks give \<open>n\<close> retries, for every \<open>n\<close>. An effect
  run that has the client requests the call exactly once and never retries, whatever
  happens afterwards, also when the request fails. After the unmount a tick changes
  nothing.
\<close>

theorem call_lookup_retry:
  assumes "s = lookup_steps evs0 lookup_init"
  shows "retries (lk_n s)
           (lk_io (lookup_steps (LkRender False cid # replicate n (LkTick (lk_n s))) s)) = n
       \<and> fetches (lk_n s)
           (lk_io (lookup_steps (LkRender False cid # replicate n (LkTick (lk_n s))) s)) = 0
       \<and> (lk_n s, SetInterval 1000) \<in> set (lk_io (lookup_step (LkRender has_client cid) s))
       \<and> fetches (lk_n s) (lk_io (lookup_steps (LkRender True cid # evs) s)) = 1
       \<and> retries (lk_n s) (lk_io (lookup_steps (LkRender True cid # evs) s)) = 0
       \<and> ((\<forall>x\<in>set ticks. is_tick x) \<longrightarrow>
            lookup_steps ticks (lookup_step LkUnmount s) = lookup_step LkUnmount s)"
proof -
  have t: "lk_tags_ok s" using assms by (simp add: lk_tags_ok_steps lk_tags_ok_init)
  have i: "interval_last s" using assms by (simp add: interval_last_steps interval_last_init)
  have "with_client (lk_n s) (lookup_steps evs (lookup_step (LkRender True cid) s))"
    using with_client_render [OF t] by (rule with_client_steps)
  then have b: "fetches (lk_n s) (lk_io (lookup_steps (LkRender True cid # evs) s)) = 1
       \<and> retries (lk_n s) (lk_io (lookup_steps (LkRender True cid # evs) s)) = 0"
    by (simp add: with_client_def)
  have c: "(lk_n s, SetInterval 1000) \<in> set (lk_io (lookup_step (LkRender has_client cid) s))"
    by (simp add: lookup_effect_def Let_def lookup_teardown_n)
  have d: "lookup_steps ticks (lookup_step LkUnmount s) = lookup_step LkUnmount s"
    if "\<forall>x\<in>set ticks. is_tick x"
    using ticks_quiet [OF lk_quiet_teardown [OF i] that] by simp
  show ?thesis using retry_count_from [OF t, of cid n] b c d by blast
qed

theorem call_lookup_retry_witness:
  "retries 0 (lk_io (lookup_steps [LkRender False ''m1'', LkTick 0, LkTick 0, LkTick 0] lookup_init)) = 3
   \<and> fetches 0 (lk_io (lookup_steps
        [LkRender True ''m1'', LkTick 0, LkGetSettled 0 (Inl (ErrorObj ''not found'')), LkTick 0]
        lookup_init)) = 1
   \<and> is_tick (LkTick 0)
   \<and> lookup_steps [LkTick 0] (lookup_step LkUnmount (lookup_steps [] lookup_init))
       = lookup_step LkUnmount (lookup_steps [] lookup_init)"
  using call_lookup_retry [of lookup_init "[]" "''m1''" 3
      False "[LkTick 0, LkGetSettled 0 (Inl (ErrorObj ''not found'')), LkTick 0]" "[LkTick 0]"]
  by (simp add: lookup_init_def numeral_3_eq_3)

text \<open>
  C7 as stated has the retry bounded. Without a client the number of retries exceeds
  every bound as the ticks go on.
\<close>

theorem retry_unbounded_counterexample:
  "\<not> (\<exists>N. \<forall>n. retries 0 (lk_io (lookup_steps
        (LkRender False ''m1'' # replicate n (LkTick 0)) lookup_init)) \<le> N)"
proof
  assume "\<exists>N. \<forall>n. retries 0 (lk_io (lookup_steps
        (LkRender False ''m1'' # replicate n (LkTick 0)) lookup_init)) \<le> N"
  then obtain N where "\<forall>n. retries 0 (lk_io (lookup_steps
        (LkRender False ''m1'' # replicate n (LkTick 0)) lookup_init)) \<le> N" ..
  then have "retries 0 (lk_io (lookup_steps
        (LkRender False ''m1'' # replicate (Suc N) (LkTick 0)) lookup_init)) \<le> N" ..
  then show False
    using retry_count_from [OF lk_tags_ok_init, of "''m1''" "Suc N"]
    by (simp add: lookup_init_def)
qed

text \<open>
  C8. With a ready client \<open>joinMeeting(id)\<close> does one thing, the navigation to
  \<open>/meetings/<id>\<close>, for every id. The meeting page then shows the loading state
  while its hook requests the call, and when that request is rejected (the id does not
  exist) the hook leaves the call undefined, shows an error toast and ends the
  loading, so that the page renders \<open>Meeting not found\<close>.
\<close>

theorem join_without_validation:
  "joinMeeting True callId = [RouterPush (''/meetings/'' @ callId)]
   \<and> (let s1 = lookup_step (LkRender True callId) lookup_init;
           s2 = lookup_step (LkGetSettled 0 (Inl error)) s1
       in MeetingPage True (call s1) (isCallLoading s1) isSetupComplete = LoadingMeeting
          \<and> (0, CallGet \<lparr>call_type = ''default'', call_id = callId\<rparr>) \<in> set (lk_io s1)
          \<and> call s2 = None \<and> isCallLoading s2 = False
          \<and> (0, LToastError (lookup_failure_message error)) \<in> set (lk_io s2)
          \<and> MeetingPage True (call s2) (isCallLoading s2) isSetupComplete = MeetingNotFound)"
  by (simp add: joinMeeting_def lookup_init_def lookup_effect_def lookup_teardown_def
      getCall_def getCall_resume_def MeetingPage_def Let_def)

theorem join_without_validation_witness:
  "joinMeeting True ''abc'' = [RouterPush ''/meetings/abc'']
   \<and> MeetingPage True
        (call (lookup_steps
           [LkRender True ''abc'', LkGetSettled 0 (Inl (ErrorObj ''Call not found''))]
           lookup_init))
        (isCallLoading (lookup_steps
           [LkRender True ''abc'', LkGetSettled 0 (Inl (ErrorObj ''Call not found''))]
           lookup_init))
        False = MeetingNotFound
   \<and> (0, LToastError ''Meeting not found or has ended'') \<in> set (lk_io (lookup_steps
           [LkRender True ''abc'', LkGetSettled 0 (Inl (ErrorObj ''Call not found''))]
           lookup_init))"
  using join_without_validation [of "''abc''" "ErrorObj ''Call not found''" False]
  by (simp add: Let_def lookup_failure_message_def MeetingPage_def)

end
